theory Spec2Isabelle
  imports Main
begin

section \<open>The record service of \<^verbatim>\<open>server.py\<close>\<close>

text \<open>
  The notebook \<^verbatim>\<open>api_integration_pipeline.ipynb\<close> writes \<^verbatim>\<open>server.py\<close>, a FastAPI
  application with one module-level dictionary \<^verbatim>\<open>library\<close> and three handlers
  (\<^verbatim>\<open>healthcheck\<close>, \<^verbatim>\<open>get_user\<close>, \<^verbatim>\<open>create_user\<close>). The handlers are embedded as
  functions that take the dictionary and return their outcome together with the
  dictionary they leave behind. An exception is a value of type \<open>error\<close>.
\<close>

subsection \<open>JSON values and Python dictionaries\<close>

datatype json =
    JNull
  | JBool bool
  | JInt int
  | JStr string
  | JList "json list"
  | JObject "(string \<times> json) list"

text \<open>
  A Python \<^verbatim>\<open>dict\<close> is an association list in insertion order.
  \<^verbatim>\<open>d.get(k)\<close> is \<open>dict_get d k\<close> (\<open>None\<close> when the key is absent),
  \<^verbatim>\<open>d[k] = v\<close> is \<open>dict_set d k v\<close> (an existing key keeps its position, a new
  key goes to the end), \<^verbatim>\<open>d.keys()\<close> is \<open>dict_keys d\<close>.
\<close>

fun dict_get :: "('k \<times> 'v) list \<Rightarrow> 'k \<Rightarrow> 'v option" where
  "dict_get [] k = None"
| "dict_get ((k', v') # d) k = (if k' = k then Some v' else dict_get d k)"

fun dict_set :: "('k \<times> 'v) list \<Rightarrow> 'k \<Rightarrow> 'v \<Rightarrow> ('k \<times> 'v) list" where
  "dict_set [] k v = [(k, v)]"
| "dict_set ((k', v') # d) k v =
     (if k' = k then (k, v) # d else (k', v') # dict_set d k v)"

definition dict_keys :: "('k \<times> 'v) list \<Rightarrow> 'k list" where
  "dict_keys d = map fst d"

text \<open>
  The dictionary display \<^verbatim>\<open>{**d, **e}\<close>: the items of \<open>e\<close> are stored into \<open>d\<close>
  one after the other.
\<close>

definition dict_merge :: "('k \<times> 'v) list \<Rightarrow> ('k \<times> 'v) list \<Rightarrow> ('k \<times> 'v) list" where
  "dict_merge d e = fold (\<lambda>(k, v) acc. dict_set acc k v) e d"

subsection \<open>Errors\<close>

text \<open>
  \<open>HTTPException\<close> is raised by \<^verbatim>\<open>get_user\<close>; \<open>ValueError\<close> is what Python's
  \<^verbatim>\<open>max\<close> raises on an empty iterable; \<open>RequestValidationError\<close> carries the
  list of error items of a request body that does not fit \<^verbatim>\<open>UserIn\<close>.
\<close>

datatype error =
    HTTPException nat string
  | ValueError
  | RequestValidationError "json list"

fun py_max :: "int list \<Rightarrow> error + int" where
  "py_max [] = Inl ValueError"
| "py_max (x # xs) = Inr (fold max xs x)"

subsection \<open>The data model\<close>

text \<open>
  \<^verbatim>\<open>class UserIn(BaseModel)\<close> with its three \<^verbatim>\<open>str\<close> fields, and \<^verbatim>\<open>user.dict()\<close>.
\<close>

record UserIn =
  name :: string
  date :: string
  service :: string

definition UserIn_dict :: "UserIn \<Rightarrow> (string \<times> json) list" where
  "UserIn_dict user =
     [(''name'', JStr (name user)), (''date'', JStr (date user)),
      (''service'', JStr (service user))]"

type_synonym store = "(int \<times> (string \<times> json) list) list"

text \<open>The module-level dictionary as the process creates it.\<close>

definition library :: store where
  "library =
     [(111, [(''name'', JStr ''Alice''), (''date'', JStr ''2025-04-25''),
             (''service'', JStr ''DemoService'')])]"

subsection \<open>The handlers\<close>

definition healthcheck :: "store \<Rightarrow> (error + json) \<times> store" where
  "healthcheck lib = (Inr (JObject [(''status'', JStr ''healthy'')]), lib)"

text \<open>
  \<^verbatim>\<open>if not user\<close> holds when \<^verbatim>\<open>library.get(userid)\<close> is \<^verbatim>\<open>None\<close> and also when
  it is an empty dictionary.
\<close>

definition get_user :: "int \<Rightarrow> store \<Rightarrow> (error + json) \<times> store" where
  "get_user userid lib =
     (case dict_get lib userid of
        None \<Rightarrow> (Inl (HTTPException 404 ''User not found''), lib)
      | Some user \<Rightarrow>
          if user = [] then (Inl (HTTPException 404 ''User not found''), lib)
          else (Inr (JObject user), lib))"

definition create_user :: "UserIn \<Rightarrow> store \<Rightarrow> (error + json) \<times> store" where
  "create_user user lib =
     (case py_max (dict_keys lib) of
        Inl e \<Rightarrow> (Inl e, lib)
      | Inr m \<Rightarrow>
          let new_id = m + 1;
              lib' = dict_set lib new_id (UserIn_dict user)
          in (Inr (JObject (dict_merge [(''id'', JInt new_id)] (UserIn_dict user))), lib'))"

subsection \<open>Responses\<close>

text \<open>
  What the framework sends for a handler's outcome: a returned value is the body of
  a 200 response, an \<open>HTTPException\<close> becomes a response with its status code and
  the body \<^verbatim>\<open>{"detail": ...}\<close>, a \<open>RequestValidationError\<close> becomes a 422 response
  whose \<^verbatim>\<open>detail\<close> is the list of error items, any other exception is a 500
  response.
\<close>

record response =
  status :: nat
  body :: json

fun respond :: "error + json \<Rightarrow> response" where
  "respond (Inr content) = \<lparr>status = 200, body = content\<rparr>"
| "respond (Inl (HTTPException status_code detail)) =
     \<lparr>status = status_code, body = JObject [(''detail'', JStr detail)]\<rparr>"
| "respond (Inl ValueError) = \<lparr>status = 500, body = JStr ''Internal Server Error''\<rparr>"
| "respond (Inl (RequestValidationError errors)) =
     \<lparr>status = 422, body = JObject [(''detail'', JList errors)]\<rparr>"

subsection \<open>Sequences of calls\<close>

text \<open>
  The store of a running process is \<open>library\<close> after some sequence of handler calls.
\<close>

datatype call = Healthcheck | Get_user int | Create_user UserIn

fun handle :: "call \<Rightarrow> store \<Rightarrow> (error + json) \<times> store" where
  "handle Healthcheck lib = healthcheck lib"
| "handle (Get_user userid) lib = get_user userid lib"
| "handle (Create_user user) lib = create_user user lib"

fun run :: "call list \<Rightarrow> store \<Rightarrow> store" where
  "run [] lib = lib"
| "run (c # cs) lib = run cs (snd (handle c lib))"

subsection \<open>The shape of a stored record\<close>

text \<open>
  A dictionary with exactly the keys \<^verbatim>\<open>name\<close>, \<^verbatim>\<open>date\<close>, \<^verbatim>\<open>service\<close>, in this order,
  each holding a string.
\<close>

fun is_text :: "json \<Rightarrow> bool" where
  "is_text (JStr s) = True"
| "is_text other = False"

definition record_fields :: "(string \<times> json) list \<Rightarrow> bool" where
  "record_fields d \<longleftrightarrow>
     map fst d = [''name'', ''date'', ''service''] \<and> list_all is_text (map snd d)"

definition all_records :: "store \<Rightarrow> bool" where
  "all_records lib = list_all (\<lambda>(k, d). record_fields d) lib"

subsection \<open>Validation of the request body\<close>

text \<open>
  The handler is declared \<^verbatim>\<open>create_user(user: UserIn)\<close>: the framework builds \<open>user\<close>
  from the JSON body of the request before the handler runs. The code that does so
  is the framework's and is not among the sources; the definitions of this
  subsection follow the spec instead.
\<close>

text \<open>
  Modelled from the spec: one item of the "field-level detail" of a validation error.
  The code that builds it is missing from the sources. An item names the kind of the
  error, the place (\<^verbatim>\<open>loc\<close>) of the field, and a message.
\<close>

definition error_item :: "string \<Rightarrow> string list \<Rightarrow> string \<Rightarrow> json" where
  "error_item type loc msg =
     JObject [(''type'', JStr type), (''loc'', JList (map JStr loc)), (''msg'', JStr msg)]"

text \<open>
  Modelled from the spec: the check of one field of the payload, whose code is missing
  from the sources. Each of \<^verbatim>\<open>name\<close>, \<^verbatim>\<open>date\<close>, \<^verbatim>\<open>service\<close> is "required" and "text":
  a missing field and a field that is not a string are errors, a string is accepted
  as it is.
\<close>

definition str_field :: "(string \<times> json) list \<Rightarrow> string \<Rightarrow> json list + string" where
  "str_field obj field =
     (case dict_get obj field of
        None \<Rightarrow> Inl [error_item ''missing'' [''body'', field] ''Field required'']
      | Some (JStr s) \<Rightarrow> Inr s
      | Some other \<Rightarrow>
          Inl [error_item ''string_type'' [''body'', field] ''Input should be a valid string''])"

fun errors_of :: "json list + string \<Rightarrow> json list" where
  "errors_of (Inl errors) = errors"
| "errors_of (Inr s) = []"

text \<open>
  Modelled from the spec: the check of the create payload against \<^verbatim>\<open>UserIn\<close>, whose
  code is missing from the sources. The payload "contains name, date, service (all
  required, all text)"; a "malformed create payload (missing/wrong-typed field)" is
  a validation error "with field-level detail", with "required-field and type checks
  performed before mutation". The errors of all three fields are collected, in the
  order of the declaration; keys other than the three are not looked at; a payload
  that is not an object is an error of the body as a whole.
\<close>

fun UserIn_validate :: "json \<Rightarrow> error + UserIn" where
  "UserIn_validate (JObject obj) =
     (let n = str_field obj ''name'';
          d = str_field obj ''date'';
          s = str_field obj ''service''
      in case (n, d, s) of
           (Inr n', Inr d', Inr s') \<Rightarrow> Inr \<lparr>name = n', date = d', service = s'\<rparr>
         | other \<Rightarrow> Inl (RequestValidationError (errors_of n @ errors_of d @ errors_of s)))"
| "UserIn_validate other =
     Inl (RequestValidationError
            [error_item ''model_attributes_type'' [''body'']
               ''Input should be a valid dictionary or object to extract fields from''])"

text \<open>
  \<^verbatim>\<open>POST /user\<close>: the body is validated; \<^verbatim>\<open>create_user\<close> runs only on a body that
  passed, and a body that did not leaves the store alone.
\<close>

definition post_user :: "json \<Rightarrow> store \<Rightarrow> (error + json) \<times> store" where
  "post_user payload lib =
     (case UserIn_validate payload of
        Inl e \<Rightarrow> (Inl e, lib)
      | Inr user \<Rightarrow> create_user user lib)"

text \<open>A field that is present and holds a string.\<close>

definition text_field :: "(string \<times> json) list \<Rightarrow> string \<Rightarrow> bool" where
  "text_field obj field = (case dict_get obj field of Some (JStr s) \<Rightarrow> True | other \<Rightarrow> False)"

fun well_formed :: "json \<Rightarrow> bool" where
  "well_formed (JObject obj) \<longleftrightarrow>
     text_field obj ''name'' \<and> text_field obj ''date'' \<and> text_field obj ''service''"
| "well_formed other \<longleftrightarrow> False"

text \<open>The \<^verbatim>\<open>loc\<close> of an error item.\<close>

fun item_loc :: "json \<Rightarrow> json" where
  "item_loc (JObject d) = (case dict_get d ''loc'' of Some l \<Rightarrow> l | None \<Rightarrow> JNull)"
| "item_loc other = JNull"

text \<open>The calls that are a create.\<close>

fun is_create :: "call \<Rightarrow> bool" where
  "is_create (Create_user user) = True"
| "is_create other = False"

section \<open>Properties of the operations\<close>

lemma dict_get_None_iff: "dict_get d k = None \<longleftrightarrow> k \<notin> set (dict_keys d)"
  by (induction d) (auto simp: dict_keys_def split: if_splits)

lemma dict_get_Some_mem: "dict_get d k = Some v \<Longrightarrow> (k, v) \<in> set d"
  by (induction d) (auto split: if_splits)

lemma dict_get_dict_set:
  "dict_get (dict_set d k v) k' = (if k' = k then Some v else dict_get d k')"
  by (induction d) auto

lemma dict_set_new: "k \<notin> set (dict_keys d) \<Longrightarrow> dict_set d k v = d @ [(k, v)]"
  by (induction d) (auto simp: dict_keys_def)

lemma dict_keys_dict_set: "set (dict_keys (dict_set d k v)) = insert k (set (dict_keys d))"
  by (induction d) (force simp: dict_keys_def split: if_splits)+

lemma dict_set_not_Nil: "dict_set d k v \<noteq> []"
  by (cases d) (auto split: if_splits)

lemma list_all_dict_set: "list_all P d \<Longrightarrow> P (k, v) \<Longrightarrow> list_all P (dict_set d k v)"
  by (induction d) auto

lemma py_max_Max: "xs \<noteq> [] \<Longrightarrow> py_max xs = Inr (Max (set xs))"
proof (cases xs)
  case Nil
  assume "xs \<noteq> []"
  with Nil show ?thesis by simp
next
  case (Cons y ys)
  then show ?thesis using Max.set_eq_fold [of y ys] by simp
qed

lemma dict_merge_id:
  "dict_merge [(''id'', JInt i)] (UserIn_dict user) = (''id'', JInt i) # UserIn_dict user"
  by (simp add: dict_merge_def UserIn_dict_def)

lemma record_fields_UserIn_dict: "record_fields (UserIn_dict user)"
  by (simp add: record_fields_def UserIn_dict_def)

lemma record_fields_iff: "record_fields d \<longleftrightarrow> (\<exists>user. d = UserIn_dict user)"
proof
  assume r: "record_fields d"
  then obtain a b c where d: "d = [(''name'', a), (''date'', b), (''service'', c)]"
    by (auto simp: record_fields_def map_eq_Cons_conv)
  with r obtain n t s where "a = JStr n" "b = JStr t" "c = JStr s"
    by (cases a; cases b; cases c) (auto simp: record_fields_def)
  with d have "d = UserIn_dict \<lparr>name = n, date = t, service = s\<rparr>"
    by (simp add: UserIn_dict_def)
  then show "\<exists>user. d = UserIn_dict user" ..
next
  assume "\<exists>user. d = UserIn_dict user"
  then show "record_fields d" by (auto simp: record_fields_UserIn_dict)
qed

lemma create_user_nonempty:
  assumes "lib \<noteq> []"
  shows "create_user user lib =
     (Inr (JObject ((''id'', JInt (Max (set (dict_keys lib)) + 1)) # UserIn_dict user)),
      dict_set lib (Max (set (dict_keys lib)) + 1) (UserIn_dict user))"
proof -
  from assms have "dict_keys lib \<noteq> []" by (simp add: dict_keys_def)
  then have "py_max (dict_keys lib) = Inr (Max (set (dict_keys lib)))" by (rule py_max_Max)
  then show ?thesis by (simp add: create_user_def dict_merge_id Let_def)
qed

lemma create_user_empty: "create_user user [] = (Inl ValueError, [])"
  by (simp add: create_user_def dict_keys_def)

lemma new_id_fresh:
  fixes lib :: store
  shows "lib \<noteq> [] \<Longrightarrow> Max (set (dict_keys lib)) + 1 \<notin> set (dict_keys lib)"
proof
  assume "lib \<noteq> []" and "Max (set (dict_keys lib)) + 1 \<in> set (dict_keys lib)"
  then have "Max (set (dict_keys lib)) + 1 \<le> Max (set (dict_keys lib))"
    using Max_ge [of "set (dict_keys lib)" "Max (set (dict_keys lib)) + 1"] by simp
  then show False by simp
qed

lemma handle_not_Nil: "lib \<noteq> [] \<Longrightarrow> snd (handle c lib) \<noteq> []"
  by (cases c) (auto simp: healthcheck_def get_user_def create_user_nonempty dict_set_not_Nil split: option.splits)

lemma handle_all_records: "all_records lib \<Longrightarrow> all_records (snd (handle c lib))"
proof (cases c)
  case (Create_user user)
  assume a: "all_records lib"
  show ?thesis
  proof (cases "lib = []")
    case True
    with Create_user show ?thesis by (simp add: create_user_empty all_records_def)
  next
    case False
    with a Create_user show ?thesis
      by (simp add: create_user_nonempty all_records_def list_all_dict_set record_fields_UserIn_dict)
  qed
qed (auto simp: healthcheck_def get_user_def split: option.splits)

lemma run_not_Nil: "lib \<noteq> [] \<Longrightarrow> run cs lib \<noteq> []"
  by (induction cs arbitrary: lib) (simp_all add: handle_not_Nil)

lemma run_all_records: "all_records lib \<Longrightarrow> all_records (run cs lib)"
  by (induction cs arbitrary: lib) (simp_all add: handle_all_records)

lemma library_not_Nil: "library \<noteq> []"
  by (simp add: library_def)

lemma library_all_records: "all_records library"
  by (simp add: library_def all_records_def record_fields_def)

lemma run_append: "run (cs @ cs') lib = run cs' (run cs lib)"
  by (induction cs arbitrary: lib) simp_all

lemma handle_keeps: "dict_get lib k = Some v \<Longrightarrow> dict_get (snd (handle c lib)) k = Some v"
proof (cases c)
  case (Create_user user)
  assume g: "dict_get lib k = Some v"
  then have ne: "lib \<noteq> []" by auto
  from g have "k \<in> set (dict_keys lib)" using dict_get_None_iff [of lib k] by auto
  with new_id_fresh [OF ne] have "k \<noteq> Max (set (dict_keys lib)) + 1" by auto
  with g ne Create_user show ?thesis by (simp add: create_user_nonempty dict_get_dict_set)
qed (auto simp: healthcheck_def get_user_def split: option.splits)

lemma run_keeps: "dict_get lib k = Some v \<Longrightarrow> dict_get (run cs lib) k = Some v"
  by (induction cs arbitrary: lib) (simp_all add: handle_keeps)

lemma record_fields_not_Nil: "record_fields d \<Longrightarrow> d \<noteq> []"
  by (auto simp: record_fields_def)

lemma all_records_lookup:
  assumes "all_records lib" and "dict_get lib k = Some d"
  shows "record_fields d"
proof -
  from assms(2) have "(k, d) \<in> set lib" by (rule dict_get_Some_mem)
  with assms(1) show ?thesis by (auto simp: all_records_def list_all_iff)
qed

lemma reachable_all_records: "all_records (run cs library)"
  using library_all_records by (rule run_all_records)

lemma reachable_not_Nil: "run cs library \<noteq> []"
  using library_not_Nil by (rule run_not_Nil)

lemma get_user_empty_record:
  "respond (fst (get_user 1 [(1, [])])) =
     \<lparr>status = 404, body = JObject [(''detail'', JStr ''User not found'')]\<rparr>"
  by (simp add: get_user_def)

lemma create_then_get:
  assumes "lib \<noteq> []"
  shows "get_user (Max (set (dict_keys lib)) + 1) (snd (create_user user lib)) =
           (Inr (JObject (UserIn_dict user)), snd (create_user user lib))"
proof -
  have "dict_get (snd (create_user user lib)) (Max (set (dict_keys lib)) + 1) =
      Some (UserIn_dict user)"
    using assms by (simp add: create_user_nonempty dict_get_dict_set)
  moreover have "UserIn_dict user \<noteq> []" by (simp add: UserIn_dict_def)
  ultimately show ?thesis by (simp add: get_user_def)
qed

lemma item_loc_error_item: "item_loc (error_item t loc m) = JList (map JStr loc)"
  by (simp add: error_item_def)

lemma str_field_text:
  assumes "text_field obj field"
  shows "\<exists>s. str_field obj field = Inr s \<and> dict_get obj field = Some (JStr s)"
proof (cases "dict_get obj field")
  case None
  with assms show ?thesis by (simp add: text_field_def)
next
  case (Some j)
  with assms show ?thesis by (cases j) (simp_all add: text_field_def str_field_def)
qed

lemma str_field_not_text:
  assumes "\<not> text_field obj field"
  shows "\<exists>t m. str_field obj field = Inl [error_item t [''body'', field] m]"
proof (cases "dict_get obj field")
  case None
  then have "str_field obj field =
      Inl [error_item ''missing'' [''body'', field] ''Field required'']"
    by (simp add: str_field_def)
  then show ?thesis by blast
next
  case (Some j)
  with assms have "str_field obj field =
      Inl [error_item ''string_type'' [''body'', field] ''Input should be a valid string'']"
    by (cases j) (simp_all add: text_field_def str_field_def)
  then show ?thesis by blast
qed

lemma locs_of_str_field:
  "item_loc ` set (errors_of (str_field obj field)) =
     (if text_field obj field then {} else {JList [JStr ''body'', JStr field]})"
proof (cases "text_field obj field")
  case True
  then obtain s where "str_field obj field = Inr s" using str_field_text by blast
  with True show ?thesis by simp
next
  case False
  then obtain t m where "str_field obj field = Inl [error_item t [''body'', field] m]"
    using str_field_not_text by blast
  with False show ?thesis by (simp add: item_loc_error_item)
qed

lemma errors_of_Nil_iff: "errors_of (str_field obj field) = [] \<longleftrightarrow> text_field obj field"
  using locs_of_str_field [of obj field] by (auto split: if_splits)

lemma UserIn_validate_well_formed:
  assumes "well_formed (JObject obj)"
  shows "\<exists>user. UserIn_validate (JObject obj) = Inr user
           \<and> dict_get obj ''name'' = Some (JStr (name user))
           \<and> dict_get obj ''date'' = Some (JStr (date user))
           \<and> dict_get obj ''service'' = Some (JStr (service user))"
proof -
  from assms obtain n where n: "str_field obj ''name'' = Inr n" "dict_get obj ''name'' = Some (JStr n)"
    using str_field_text [of obj "''name''"] by auto
  from assms obtain d where d: "str_field obj ''date'' = Inr d" "dict_get obj ''date'' = Some (JStr d)"
    using str_field_text [of obj "''date''"] by auto
  from assms obtain s where s: "str_field obj ''service'' = Inr s" "dict_get obj ''service'' = Some (JStr s)"
    using str_field_text [of obj "''service''"] by auto
  have "UserIn_validate (JObject obj) = Inr \<lparr>name = n, date = d, service = s\<rparr>"
    by (simp add: n d s)
  with n d s show ?thesis by simp
qed

lemma UserIn_validate_malformed:
  assumes "\<not> well_formed (JObject obj)"
  shows "UserIn_validate (JObject obj) =
           Inl (RequestValidationError
                  (errors_of (str_field obj ''name'') @ errors_of (str_field obj ''date'')
                   @ errors_of (str_field obj ''service'')))"
proof -
  from assms consider "\<not> text_field obj ''name''" | "\<not> text_field obj ''date''"
    | "\<not> text_field obj ''service''"
    by auto
  then show ?thesis
  proof cases
    case 1
    then obtain t m where "str_field obj ''name'' = Inl [error_item t [''body'', ''name''] m]"
      using str_field_not_text by blast
    then show ?thesis by (simp add: Let_def split: sum.splits)
  next
    case 2
    then obtain t m where "str_field obj ''date'' = Inl [error_item t [''body'', ''date''] m]"
      using str_field_not_text by blast
    then show ?thesis by (simp add: Let_def split: sum.splits)
  next
    case 3
    then obtain t m where
      "str_field obj ''service'' = Inl [error_item t [''body'', ''service''] m]"
      using str_field_not_text by blast
    then show ?thesis by (simp add: Let_def split: sum.splits)
  qed
qed

lemma post_user_malformed:
  assumes "\<not> well_formed payload"
  shows "\<exists>errors. errors \<noteq> []
           \<and> post_user payload lib = (Inl (RequestValidationError errors), lib)
           \<and> (\<forall>obj. payload = JObject obj \<longrightarrow>
                 item_loc ` set errors =
                   item_loc ` set (errors_of (str_field obj ''name''))
                   \<union> item_loc ` set (errors_of (str_field obj ''date''))
                   \<union> item_loc ` set (errors_of (str_field obj ''service'')))"
proof (cases "\<exists>obj. payload = JObject obj")
  case True
  then obtain obj where p: "payload = JObject obj" ..
  let ?errors = "errors_of (str_field obj ''name'') @ errors_of (str_field obj ''date'')
      @ errors_of (str_field obj ''service'')"
  from assms p have v: "UserIn_validate payload = Inl (RequestValidationError ?errors)"
    by (simp add: UserIn_validate_malformed del: UserIn_validate.simps)
  from assms p have "?errors \<noteq> []"
    by (auto simp: errors_of_Nil_iff)
  moreover have "post_user payload lib = (Inl (RequestValidationError ?errors), lib)"
    by (simp add: post_user_def v)
  moreover have "\<forall>obj'. payload = JObject obj' \<longrightarrow>
      item_loc ` set ?errors =
        item_loc ` set (errors_of (str_field obj' ''name''))
        \<union> item_loc ` set (errors_of (str_field obj' ''date''))
        \<union> item_loc ` set (errors_of (str_field obj' ''service''))"
    by (auto simp: p)
  ultimately show ?thesis by blast
next
  case False
  then have "post_user payload lib =
      (Inl (RequestValidationError
         [error_item ''model_attributes_type'' [''body'']
            ''Input should be a valid dictionary or object to extract fields from'']), lib)"
    by (cases payload) (simp_all add: post_user_def)
  with False show ?thesis by auto
qed

lemma handle_distinct:
  assumes "distinct (dict_keys lib)"
  shows "distinct (dict_keys (snd (handle c lib)))"
proof (cases c)
  case (Create_user user)
  show ?thesis
  proof (cases "lib = []")
    case True
    with Create_user show ?thesis by (simp add: create_user_empty dict_keys_def)
  next
    case False
    then have "Max (set (dict_keys lib)) + 1 \<notin> set (dict_keys lib)" by (rule new_id_fresh)
    with assms False Create_user show ?thesis
      by (simp add: create_user_nonempty dict_set_new) (simp add: dict_keys_def)
  qed
next
  case Healthcheck
  with assms show ?thesis by (simp add: healthcheck_def)
next
  case (Get_user userid)
  with assms show ?thesis by (simp add: get_user_def split: option.splits)
qed

lemma handle_length:
  assumes "lib \<noteq> []"
  shows "length (snd (handle c lib)) = length lib + (if is_create c then 1 else 0)"
proof (cases c)
  case (Create_user user)
  from assms have "Max (set (dict_keys lib)) + 1 \<notin> set (dict_keys lib)" by (rule new_id_fresh)
  with assms Create_user show ?thesis by (simp add: create_user_nonempty dict_set_new)
qed (auto simp: healthcheck_def get_user_def split: option.splits)

lemma run_distinct: "distinct (dict_keys lib) \<Longrightarrow> distinct (dict_keys (run cs lib))"
  by (induction cs arbitrary: lib) (simp_all add: handle_distinct)

lemma run_length:
  "lib \<noteq> [] \<Longrightarrow> length (run cs lib) = length lib + length (filter is_create cs)"
proof (induction cs arbitrary: lib)
  case Nil
  then show ?case by simp
next
  case (Cons c cs)
  from Cons.prems have "snd (handle c lib) \<noteq> []" by (rule handle_not_Nil)
  then have "length (run cs (snd (handle c lib))) =
      length (snd (handle c lib)) + length (filter is_create cs)"
    by (rule Cons.IH)
  with Cons.prems show ?case by (simp add: handle_length)
qed

lemma sequential_creates_distinct_ids:
  "distinct (dict_keys (run cs library))
   \<and> length (run cs library) = 1 + length (filter is_create cs)"
proof -
  have "distinct (dict_keys library)" by (simp add: library_def dict_keys_def)
  then have "distinct (dict_keys (run cs library))" by (rule run_distinct)
  moreover have "length (run cs library) = length library + length (filter is_create cs)"
    using library_not_Nil by (rule run_length)
  ultimately show ?thesis by (simp add: library_def)
qed

section \<open>Properties of the service\<close>

text \<open>
  C1. On a non-empty store, create computes the new id as the maximum key plus one,
  stores the record under that id (leaving every other key as it was), and returns
  the record together with the id; the id is greater than every key the store had.
\<close>

theorem create_user_assigns_max_plus_one:
  assumes "lib \<noteq> []"
  shows "create_user user lib =
           (Inr (JObject ((''id'', JInt (Max (set (dict_keys lib)) + 1)) # UserIn_dict user)),
            dict_set lib (Max (set (dict_keys lib)) + 1) (UserIn_dict user))
         \<and> snd (create_user user lib) = lib @ [(Max (set (dict_keys lib)) + 1, UserIn_dict user)]
         \<and> dict_get (snd (create_user user lib)) (Max (set (dict_keys lib)) + 1) =
             Some (UserIn_dict user)
         \<and> (\<forall>k. k \<noteq> Max (set (dict_keys lib)) + 1 \<longrightarrow>
               dict_get (snd (create_user user lib)) k = dict_get lib k)
         \<and> (\<forall>k \<in> set (dict_keys lib). k < Max (set (dict_keys lib)) + 1)
         \<and> respond (fst (create_user user lib)) =
             \<lparr>status = 200,
              body = JObject [(''id'', JInt (Max (set (dict_keys lib)) + 1)),
                              (''name'', JStr (name user)), (''date'', JStr (date user)),
                              (''service'', JStr (service user))]\<rparr>"
proof -
  let ?new_id = "Max (set (dict_keys lib)) + 1"
  have c: "create_user user lib =
      (Inr (JObject ((''id'', JInt ?new_id) # UserIn_dict user)),
       dict_set lib ?new_id (UserIn_dict user))"
    using assms by (rule create_user_nonempty)
  have "?new_id \<notin> set (dict_keys lib)"
    using assms by (rule new_id_fresh)
  then have app: "dict_set lib ?new_id (UserIn_dict user) = lib @ [(?new_id, UserIn_dict user)]"
    by (rule dict_set_new)
  have above: "\<forall>k \<in> set (dict_keys lib). k < ?new_id"
  proof
    fix k assume "k \<in> set (dict_keys lib)"
    then have "k \<le> Max (set (dict_keys lib))" by simp
    then show "k < ?new_id" by simp
  qed
  have resp: "respond (fst (create_user user lib)) =
      \<lparr>status = 200,
       body = JObject [(''id'', JInt ?new_id), (''name'', JStr (name user)),
                       (''date'', JStr (date user)), (''service'', JStr (service user))]\<rparr>"
    by (simp add: c UserIn_dict_def)
  have look: "dict_get (snd (create_user user lib)) ?new_id = Some (UserIn_dict user)"
    by (simp add: c dict_get_dict_set)
  have others: "\<forall>k. k \<noteq> ?new_id \<longrightarrow> dict_get (snd (create_user user lib)) k = dict_get lib k"
    by (simp add: c dict_get_dict_set)
  have snd_eq: "snd (create_user user lib) = lib @ [(?new_id, UserIn_dict user)]"
    by (simp add: c app)
  from c snd_eq look others above resp show ?thesis by blast
qed

theorem create_user_assigns_max_plus_one_witness:
  "library \<noteq> []
   \<and> create_user \<lparr>name = ''Bob'', date = ''2025-01-01'', service = ''X''\<rparr> library =
       (Inr (JObject [(''id'', JInt 112), (''name'', JStr ''Bob''),
                      (''date'', JStr ''2025-01-01''), (''service'', JStr ''X'')]),
        [(111, [(''name'', JStr ''Alice''), (''date'', JStr ''2025-04-25''),
                (''service'', JStr ''DemoService'')]),
         (112, [(''name'', JStr ''Bob''), (''date'', JStr ''2025-01-01''),
                (''service'', JStr ''X'')])])
   \<and> dict_keys library = [111] \<and> (111::int) < 112"
proof -
  have ne: "library \<noteq> []" by (simp add: library_def)
  have m: "Max (set (dict_keys library)) + 1 = 112"
    by (simp add: library_def dict_keys_def)
  show ?thesis
    using ne create_user_assigns_max_plus_one
      [OF ne, of "\<lparr>name = ''Bob'', date = ''2025-01-01'', service = ''X''\<rparr>"]
    unfolding m by (simp add: library_def UserIn_dict_def dict_keys_def)
qed

text \<open>
  C2. In every store the process can reach, and for every integer id: get-by-id
  answers 200 with the record stored under the id, a JSON object with the fields
  name, date and service, exactly when the id is a key of the store, and answers 404
  with the body \<^verbatim>\<open>{"detail": "User not found"}\<close> exactly when it is not.
\<close>

theorem get_user_found_iff_key:
  "(userid \<in> set (dict_keys (run cs library)) \<longleftrightarrow>
      (\<exists>user. dict_get (run cs library) userid = Some (UserIn_dict user)
         \<and> respond (fst (get_user userid (run cs library))) =
             \<lparr>status = 200,
              body = JObject [(''name'', JStr (name user)), (''date'', JStr (date user)),
                              (''service'', JStr (service user))]\<rparr>))
   \<and> (userid \<notin> set (dict_keys (run cs library)) \<longleftrightarrow>
        respond (fst (get_user userid (run cs library))) =
          \<lparr>status = 404, body = JObject [(''detail'', JStr ''User not found'')]\<rparr>)"
proof (cases "dict_get (run cs library) userid")
  case None
  then have "userid \<notin> set (dict_keys (run cs library))"
    by (simp add: dict_get_None_iff)
  with None show ?thesis by (simp add: get_user_def)
next
  case (Some d)
  then have key: "userid \<in> set (dict_keys (run cs library))"
    using dict_get_None_iff [of "run cs library" userid] by simp
  from reachable_all_records Some have "record_fields d" by (rule all_records_lookup)
  then obtain user where d: "d = UserIn_dict user" by (auto simp: record_fields_iff)
  have "respond (fst (get_user userid (run cs library))) =
      \<lparr>status = 200,
       body = JObject [(''name'', JStr (name user)), (''date'', JStr (date user)),
                       (''service'', JStr (service user))]\<rparr>"
    by (simp add: get_user_def Some d UserIn_dict_def)
  with key Some d show ?thesis by auto
qed

text \<open>
  C3, as stated, fails: after creating Bob on the initial store, get-by-id for the
  returned id 112 answers 200 with the three fields only; its body has no key
  \<^verbatim>\<open>id\<close>.
\<close>

theorem get_after_create_has_no_id:
  "fst (create_user \<lparr>name = ''Bob'', date = ''2025-01-01'', service = ''X''\<rparr> library) =
     Inr (JObject [(''id'', JInt 112), (''name'', JStr ''Bob''),
                   (''date'', JStr ''2025-01-01''), (''service'', JStr ''X'')])
   \<and> respond (fst (get_user 112
        (snd (create_user \<lparr>name = ''Bob'', date = ''2025-01-01'', service = ''X''\<rparr> library)))) =
       \<lparr>status = 200,
        body = JObject [(''name'', JStr ''Bob''), (''date'', JStr ''2025-01-01''),
                        (''service'', JStr ''X'')]\<rparr>
   \<and> dict_get [(''name'', JStr ''Bob''), (''date'', JStr ''2025-01-01''),
                (''service'', JStr ''X'')] ''id'' = None"
  by (simp add: create_user_def library_def dict_keys_def dict_merge_def UserIn_dict_def
      get_user_def)

text \<open>
  C3, amended. In every store the process can reach, creating Bob returns the three
  fields together with a new id, and get-by-id for that id, right after, answers 200
  with exactly the three fields as they were sent; the id is in the answer of the
  create only.
\<close>

theorem create_then_get_round_trip:
  "\<exists>new_id.
     fst (create_user \<lparr>name = ''Bob'', date = ''2025-01-01'', service = ''X''\<rparr> (run cs library)) =
       Inr (JObject [(''id'', JInt new_id), (''name'', JStr ''Bob''),
                     (''date'', JStr ''2025-01-01''), (''service'', JStr ''X'')])
     \<and> respond (fst (get_user new_id
          (snd (create_user \<lparr>name = ''Bob'', date = ''2025-01-01'', service = ''X''\<rparr>
             (run cs library))))) =
         \<lparr>status = 200,
          body = JObject [(''name'', JStr ''Bob''), (''date'', JStr ''2025-01-01''),
                          (''service'', JStr ''X'')]\<rparr>"
proof -
  let ?bob = "\<lparr>name = ''Bob'', date = ''2025-01-01'', service = ''X''\<rparr>"
  let ?lib = "run cs library"
  let ?new_id = "Max (set (dict_keys ?lib)) + 1"
  have ne: "?lib \<noteq> []" by (rule reachable_not_Nil)
  have "fst (create_user ?bob ?lib) =
      Inr (JObject [(''id'', JInt ?new_id), (''name'', JStr ''Bob''),
                    (''date'', JStr ''2025-01-01''), (''service'', JStr ''X'')])"
    by (simp add: create_user_nonempty [OF ne] UserIn_dict_def)
  moreover have "respond (fst (get_user ?new_id (snd (create_user ?bob ?lib)))) =
      \<lparr>status = 200,
       body = JObject [(''name'', JStr ''Bob''), (''date'', JStr ''2025-01-01''),
                       (''service'', JStr ''X'')]\<rparr>"
    by (simp add: create_then_get [OF ne] UserIn_dict_def)
  ultimately show ?thesis by blast
qed

text \<open>
  C4. At process start the store holds exactly one record, under the key 111, with
  name Alice, date 2025-04-25 and service DemoService, and get-by-id for 111 on that
  store answers 200 with that record.
\<close>

theorem seeded_store_and_get_111:
  "library =
     [(111, UserIn_dict \<lparr>name = ''Alice'', date = ''2025-04-25'', service = ''DemoService''\<rparr>)]
   \<and> dict_keys library = [111]
   \<and> get_user 111 library =
       (Inr (JObject [(''name'', JStr ''Alice''), (''date'', JStr ''2025-04-25''),
                      (''service'', JStr ''DemoService'')]), library)
   \<and> respond (fst (get_user 111 library)) =
       \<lparr>status = 200,
        body = JObject [(''name'', JStr ''Alice''), (''date'', JStr ''2025-04-25''),
                        (''service'', JStr ''DemoService'')]\<rparr>"
  by (simp add: library_def UserIn_dict_def dict_keys_def get_user_def)

text \<open>
  C5. Whatever the store holds, the health check returns the payload
  \<^verbatim>\<open>{"status": "healthy"}\<close>, which is sent with status 200; the outcome is the same
  for any two stores and is never an error.
\<close>

theorem healthcheck_fixed_payload:
  "respond (fst (healthcheck lib)) =
     \<lparr>status = 200, body = JObject [(''status'', JStr ''healthy'')]\<rparr>
   \<and> fst (healthcheck lib) = fst (healthcheck lib')
   \<and> fst (healthcheck lib) = Inr (JObject [(''status'', JStr ''healthy'')])"
  by (simp add: healthcheck_def)

text \<open>
  C6. The health check and get-by-id, for a present and for an absent id alike,
  leave the store exactly as it was, on every store.
\<close>

theorem reads_leave_store_unchanged:
  "snd (healthcheck lib) = lib \<and> snd (get_user userid lib) = lib"
  by (simp add: healthcheck_def get_user_def split: option.splits)

text \<open>
  C7, as stated, fails: create on the initial store accepts a payload whose name and
  service are the empty string and stores it under the id 112.
\<close>

theorem create_user_accepts_empty_name:
  "create_user \<lparr>name = '''', date = ''2025-01-01'', service = ''''\<rparr> library =
     (Inr (JObject [(''id'', JInt 112), (''name'', JStr ''''),
                    (''date'', JStr ''2025-01-01''), (''service'', JStr '''')]),
      [(111, [(''name'', JStr ''Alice''), (''date'', JStr ''2025-04-25''),
              (''service'', JStr ''DemoService'')]),
       (112, [(''name'', JStr ''''), (''date'', JStr ''2025-01-01''),
              (''service'', JStr '''')])])"
  by (simp add: create_user_def library_def dict_keys_def dict_merge_def UserIn_dict_def)

text \<open>
  C7, amended. Every record of every store the process can reach has exactly the
  fields name, date and service, each a string; create checks nothing about the
  strings: for any three strings, empty ones included, it succeeds and appends them
  as the record of the new id.
\<close>

theorem stored_records_have_text_fields:
  "all_records (run cs library)
   \<and> (\<exists>new_id. create_user user (run cs library) =
         (Inr (JObject [(''id'', JInt new_id), (''name'', JStr (name user)),
                        (''date'', JStr (date user)), (''service'', JStr (service user))]),
          run cs library @
            [(new_id, [(''name'', JStr (name user)), (''date'', JStr (date user)),
                       (''service'', JStr (service user))])]))
   \<and> all_records (snd (create_user user (run cs library)))"
proof -
  let ?lib = "run cs library"
  let ?new_id = "Max (set (dict_keys ?lib)) + 1"
  have ne: "?lib \<noteq> []" by (rule reachable_not_Nil)
  have inv: "all_records ?lib" by (rule reachable_all_records)
  have "?new_id \<notin> set (dict_keys ?lib)" using ne by (rule new_id_fresh)
  then have "dict_set ?lib ?new_id (UserIn_dict user) = ?lib @ [(?new_id, UserIn_dict user)]"
    by (rule dict_set_new)
  then have c: "create_user user ?lib =
      (Inr (JObject [(''id'', JInt ?new_id), (''name'', JStr (name user)),
                     (''date'', JStr (date user)), (''service'', JStr (service user))]),
       ?lib @ [(?new_id, [(''name'', JStr (name user)), (''date'', JStr (date user)),
                          (''service'', JStr (service user))])])"
    by (simp add: create_user_nonempty [OF ne] UserIn_dict_def)
  have "all_records (snd (handle (Create_user user) ?lib))"
    using inv by (rule handle_all_records)
  then have "all_records (snd (create_user user ?lib))" by simp
  with inv c show ?thesis by blast
qed

text \<open>
  C8. On every store the process can reach: a create request succeeds, with status
  200, exactly when its payload is an object whose name, date and service are all
  present as strings, and then it appends a record made of these three strings. Any
  other payload is answered 422, the store is left as it was, and the detail of the
  answer is a non-empty list of error items that names, among the three fields, just
  those that are missing or are not strings.
\<close>

theorem post_user_validates_payload:
  "(well_formed payload \<longleftrightarrow>
      status (respond (fst (post_user payload (run cs library)))) = 200)
   \<and> (well_formed payload \<longrightarrow>
        (\<exists>obj new_id user.
           payload = JObject obj
           \<and> dict_get obj ''name'' = Some (JStr (name user))
           \<and> dict_get obj ''date'' = Some (JStr (date user))
           \<and> dict_get obj ''service'' = Some (JStr (service user))
           \<and> post_user payload (run cs library) =
               (Inr (JObject ((''id'', JInt new_id) # UserIn_dict user)),
                run cs library @ [(new_id, UserIn_dict user)])))
   \<and> (\<not> well_formed payload \<longrightarrow>
        (\<exists>errors.
           errors \<noteq> []
           \<and> post_user payload (run cs library) =
               (Inl (RequestValidationError errors), run cs library)
           \<and> respond (fst (post_user payload (run cs library))) =
               \<lparr>status = 422, body = JObject [(''detail'', JList errors)]\<rparr>
           \<and> (\<forall>obj. payload = JObject obj \<longrightarrow>
                (\<forall>field \<in> {''name'', ''date'', ''service''}.
                   text_field obj field \<longleftrightarrow>
                     JList [JStr ''body'', JStr field] \<notin> item_loc ` set errors))))"
proof (cases "well_formed payload")
  case True
  let ?lib = "run cs library"
  let ?new_id = "Max (set (dict_keys ?lib)) + 1"
  from True obtain obj where p: "payload = JObject obj" by (cases payload) simp_all
  with True obtain user where
    v: "UserIn_validate (JObject obj) = Inr user" and
    f: "dict_get obj ''name'' = Some (JStr (name user))"
       "dict_get obj ''date'' = Some (JStr (date user))"
       "dict_get obj ''service'' = Some (JStr (service user))"
    using UserIn_validate_well_formed [of obj] by auto
  have ne: "?lib \<noteq> []" by (rule reachable_not_Nil)
  have "?new_id \<notin> set (dict_keys ?lib)" using ne by (rule new_id_fresh)
  then have "dict_set ?lib ?new_id (UserIn_dict user) = ?lib @ [(?new_id, UserIn_dict user)]"
    by (rule dict_set_new)
  then have c: "post_user payload ?lib =
      (Inr (JObject ((''id'', JInt ?new_id) # UserIn_dict user)),
       ?lib @ [(?new_id, UserIn_dict user)])"
    by (simp add: post_user_def p v create_user_nonempty [OF ne] del: UserIn_validate.simps)
  then have "status (respond (fst (post_user payload ?lib))) = 200" by simp
  with True p f c show ?thesis by blast
next
  case False
  let ?lib = "run cs library"
  from False obtain errors where
    e: "errors \<noteq> []" and
    r: "post_user payload ?lib = (Inl (RequestValidationError errors), ?lib)" and
    l: "\<forall>obj. payload = JObject obj \<longrightarrow>
          item_loc ` set errors =
            item_loc ` set (errors_of (str_field obj ''name''))
            \<union> item_loc ` set (errors_of (str_field obj ''date''))
            \<union> item_loc ` set (errors_of (str_field obj ''service''))"
    using post_user_malformed [of payload ?lib] by blast
  have resp: "respond (fst (post_user payload ?lib)) =
      \<lparr>status = 422, body = JObject [(''detail'', JList errors)]\<rparr>"
    by (simp add: r)
  then have not200: "status (respond (fst (post_user payload ?lib))) \<noteq> 200" by simp
  have fields: "\<forall>obj. payload = JObject obj \<longrightarrow>
      (\<forall>field \<in> {''name'', ''date'', ''service''}.
         text_field obj field \<longleftrightarrow> JList [JStr ''body'', JStr field] \<notin> item_loc ` set errors)"
  proof (intro allI impI)
    fix obj assume "payload = JObject obj"
    with l have "item_loc ` set errors =
        item_loc ` set (errors_of (str_field obj ''name''))
        \<union> item_loc ` set (errors_of (str_field obj ''date''))
        \<union> item_loc ` set (errors_of (str_field obj ''service''))"
      by blast
    then show "\<forall>field \<in> {''name'', ''date'', ''service''}.
        text_field obj field \<longleftrightarrow> JList [JStr ''body'', JStr field] \<notin> item_loc ` set errors"
      by (simp add: locs_of_str_field)
  qed
  from False e r resp not200 fields show ?thesis by blast
qed

theorem post_user_validates_payload_witness:
  "well_formed (JObject [(''name'', JStr ''Bob''), (''date'', JStr ''2025-01-01''),
                         (''service'', JStr ''X'')])
   \<and> post_user (JObject [(''name'', JStr ''Bob''), (''date'', JStr ''2025-01-01''),
                         (''service'', JStr ''X'')]) (run [] library) =
       (Inr (JObject [(''id'', JInt 112), (''name'', JStr ''Bob''),
                      (''date'', JStr ''2025-01-01''), (''service'', JStr ''X'')]),
        library @ [(112, [(''name'', JStr ''Bob''), (''date'', JStr ''2025-01-01''),
                          (''service'', JStr ''X'')])])
   \<and> \<not> well_formed (JObject [(''name'', JStr ''Bob''), (''date'', JInt 20250101)])
   \<and> respond (fst (post_user (JObject [(''name'', JStr ''Bob''), (''date'', JInt 20250101)])
        (run [] library))) =
       \<lparr>status = 422,
        body = JObject [(''detail'', JList
          [error_item ''string_type'' [''body'', ''date''] ''Input should be a valid string'',
           error_item ''missing'' [''body'', ''service''] ''Field required''])]\<rparr>
   \<and> snd (post_user (JObject [(''name'', JStr ''Bob''), (''date'', JInt 20250101)])
        (run [] library)) = library"
  using post_user_validates_payload
      [of "JObject [(''name'', JStr ''Bob''), (''date'', JStr ''2025-01-01''),
                    (''service'', JStr ''X'')]" "[]"]
    post_user_validates_payload
      [of "JObject [(''name'', JStr ''Bob''), (''date'', JInt 20250101)]" "[]"]
  by (simp add: text_field_def post_user_def str_field_def create_user_def library_def
      dict_keys_def dict_merge_def UserIn_dict_def)

text \<open>
  C10. After any sequence of calls on the initial store the store is not empty, no
  call removes a key, and so the maximum of the keys exists and create returns a
  record, never the \<open>ValueError\<close> of an empty store.
\<close>

theorem store_never_empty:
  "run cs library \<noteq> []
   \<and> set (dict_keys (run cs library)) \<subseteq> set (dict_keys (run (cs @ cs') library))
   \<and> py_max (dict_keys (run cs library)) = Inr (Max (set (dict_keys (run cs library))))
   \<and> fst (create_user user (run cs library)) \<noteq> Inl ValueError
   \<and> (\<exists>new_id. fst (create_user user (run cs library)) =
         Inr (JObject ((''id'', JInt new_id) # UserIn_dict user)))"
proof -
  let ?lib = "run cs library"
  have ne: "?lib \<noteq> []" by (rule reachable_not_Nil)
  have keys: "set (dict_keys ?lib) \<subseteq> set (dict_keys (run (cs @ cs') library))"
  proof
    fix k assume "k \<in> set (dict_keys ?lib)"
    then obtain v where "dict_get ?lib k = Some v"
      using dict_get_None_iff [of ?lib k] by auto
    then have "dict_get (run cs' ?lib) k = Some v" by (rule run_keeps)
    then show "k \<in> set (dict_keys (run (cs @ cs') library))"
      using dict_get_None_iff [of "run cs' ?lib" k] by (simp add: run_append)
  qed
  from ne have "dict_keys ?lib \<noteq> []" by (simp add: dict_keys_def)
  then have m: "py_max (dict_keys ?lib) = Inr (Max (set (dict_keys ?lib)))" by (rule py_max_Max)
  have c: "fst (create_user user ?lib) =
      Inr (JObject ((''id'', JInt (Max (set (dict_keys ?lib)) + 1)) # UserIn_dict user))"
    by (simp add: create_user_nonempty [OF ne])
  then have "fst (create_user user ?lib) \<noteq> Inl ValueError" by simp
  with ne keys m c show ?thesis by blast
qed

end
